theory Spec2Isabelle
  imports Complex_Main "HOL-Library.Word" "HOL-Library.Sublist"
begin

section \<open>Shared helpers of ORBIT operations (ag/orbit/ops/__init__.py, class Abstract)\<close>

subsection \<open>Errors\<close>

text \<open>
  Every \<open>raise\<close> of the source is a value of this type. The source raises
  \<open>ValueError\<close> with four message templates; each template is one constructor
  carrying the field name the message is formatted with. The remaining constructors are
  the exceptions of the Python runtime and of the two libraries that the modelled
  functions can meet.
\<close>

datatype error =
    OutOfRange string          \<comment> \<open>ValueError('{} is out of range: ...')\<close>
  | ZeroNotAllowed string      \<comment> \<open>ValueError('{} may not be zero')\<close>
  | InvalidAddressValue string \<comment> \<open>ValueError('{} is not a valid bitcoincash address')\<close>
  | TruncatedData              \<comment> \<open>ValueError('Not enough data reading address ...')\<close>
  | UnicodeEncodeError
  | UnicodeDecodeError
  | OverflowError              \<comment> \<open>int.to_bytes on a value that does not fit\<close>
  | AttributeError             \<comment> \<open>attribute lookup on an object that lacks it\<close>
  | InvalidAddress             \<comment> \<open>cashaddress.convert.InvalidAddress\<close>
  | ValidatorError             \<comment> \<open>any exception of rfc3986's Validator.validate\<close>
  | UriParseError              \<comment> \<open>any exception of rfc3986.uri_reference\<close>

subsection \<open>Range validators\<close>

text \<open>
  \<open>validate_range(cls, name, value, minval, maxval, optional=False)\<close>.
  A value is a Python int or \<open>None\<close>.
\<close>

definition validate_range ::
  "string \<Rightarrow> int option \<Rightarrow> int \<Rightarrow> int \<Rightarrow> bool \<Rightarrow> error + int option" where
  "validate_range name val minval maxval optional =
     (case val of
        None \<Rightarrow> Inr val
      | Some v \<Rightarrow>
          if \<not> optional then
            (if v < minval \<or> v > maxval then Inl (OutOfRange name) else Inr val)
          else Inr val)"

text \<open>
  Python's \<open>2 ** e\<close> on ints: an int for \<open>e \<ge> 0\<close>; for a negative exponent the
  operands are converted to floats, which gives the exact power of two down to the
  smallest subnormal \<open>2 ** -1074\<close> and \<open>0.0\<close> below it. Comparing an int with a
  float is exact in Python, so the rationals carry the comparison.
\<close>

definition py_pow2 :: "int \<Rightarrow> rat" where
  "py_pow2 e = (if 0 \<le> e then 2 ^ nat e
                else if - 1074 \<le> e then 1 / 2 ^ nat (- e)
                else 0)"

text \<open>
  \<open>validate_range_bytesize(cls, name, value, size, optional=False, allow_zero=True,
  signed=False)\<close>. The parameter \<open>signed\<close> is accepted and never read.
\<close>

definition validate_range_bytesize ::
  "string \<Rightarrow> int option \<Rightarrow> int \<Rightarrow> bool \<Rightarrow> bool \<Rightarrow> bool \<Rightarrow> error + int option" where
  "validate_range_bytesize name val sz optional allow_zero sgnd =
     (if val = Some 0 \<and> \<not> allow_zero then Inl (ZeroNotAllowed name)
      else
        (case val of
           None \<Rightarrow> Inr val
         | Some v \<Rightarrow>
             if \<not> optional then
               (let minval = 0 - py_pow2 (8 * sz - 1);
                    maxval = py_pow2 (8 * sz - 1) - 1
                in if of_int v < minval \<or> of_int v > maxval
                   then Inl (OutOfRange name) else Inr val)
             else Inr val))"

subsection \<open>Bytes, texts and the class constants\<close>

text \<open>
  A \<open>bytes\<close> object is a list of 8-bit words; a \<open>str\<close> is the list of its code
  points. \<open>SEPARATOR = b'\xFF'\<close> is a bytes object of length one, and
  \<open>ENCODING = 'utf-8'\<close>.
\<close>

type_synonym byte = "8 word"
type_synonym str = "nat list"

datatype encoding = UTF8 | ASCII

definition SEPARATOR :: "byte list" where
  "SEPARATOR = [0xFF]"

definition ENCODING :: encoding where
  "ENCODING = UTF8"

text \<open>
  \<open>bytes.find(sub)\<close>: the lowest index at which \<open>sub\<close> starts, \<open>-1\<close> when it
  occurs nowhere.
\<close>

fun bytes_find_from :: "byte list \<Rightarrow> byte list \<Rightarrow> nat \<Rightarrow> int" where
  "bytes_find_from [] sub i = (if sub = [] then int i else - 1)"
| "bytes_find_from (x # xs) sub i =
     (if prefix sub (x # xs) then int i else bytes_find_from xs sub (Suc i))"

definition bytes_find :: "byte list \<Rightarrow> byte list \<Rightarrow> int" where
  "bytes_find data sub = bytes_find_from data sub 0"

text \<open>
  Iterating over a \<open>bytes\<close> object yields ints, and \<open>SEPARATOR\<close> is a \<open>bytes\<close>
  object: Python's \<open>==\<close> between an int and a bytes object is \<open>False\<close> for all
  operands.
\<close>

definition py_int_eq_bytes :: "byte \<Rightarrow> byte list \<Rightarrow> bool" where
  "py_int_eq_bytes b bs = False"

subsection \<open>The codecs of the Python runtime\<close>

text \<open>
  \<open>str.encode\<close> and \<open>bytes.decode\<close> are called with the default error handler
  \<open>'strict'\<close>. The codecs belong to the Python runtime; they are written here after
  the definitions of US-ASCII and of UTF-8 (RFC 3629) that the runtime implements.
  A code point above \<open>0x10FFFF\<close> does not occur in a \<open>str\<close>; the encoders refuse it.
\<close>

definition push :: "'a \<Rightarrow> error + 'a list \<Rightarrow> error + 'a list" where
  "push x r = (case r of Inl e \<Rightarrow> Inl e | Inr xs \<Rightarrow> Inr (x # xs))"

fun encode_ascii :: "str \<Rightarrow> error + byte list" where
  "encode_ascii [] = Inr []"
| "encode_ascii (c # cs) =
     (if c < 128 then push (of_nat c) (encode_ascii cs) else Inl UnicodeEncodeError)"

fun decode_ascii :: "byte list \<Rightarrow> error + str" where
  "decode_ascii [] = Inr []"
| "decode_ascii (b # bs) =
     (if b < 128 then push (unat b) (decode_ascii bs) else Inl UnicodeDecodeError)"

definition utf8_char :: "nat \<Rightarrow> error + nat list" where
  "utf8_char c =
     (if c < 0x80 then Inr [c]
      else if c < 0x800 then Inr [0xC0 + c div 64, 0x80 + c mod 64]
      else if 0xD800 \<le> c \<and> c \<le> 0xDFFF then Inl UnicodeEncodeError
      else if c < 0x10000 then
        Inr [0xE0 + c div 4096, 0x80 + c div 64 mod 64, 0x80 + c mod 64]
      else if c < 0x110000 then
        Inr [0xF0 + c div 262144, 0x80 + c div 4096 mod 64,
             0x80 + c div 64 mod 64, 0x80 + c mod 64]
      else Inl UnicodeEncodeError)"

fun utf8_units :: "str \<Rightarrow> error + nat list" where
  "utf8_units [] = Inr []"
| "utf8_units (c # cs) =
     (case utf8_char c of
        Inl e \<Rightarrow> Inl e
      | Inr us \<Rightarrow> (case utf8_units cs of Inl e \<Rightarrow> Inl e | Inr r \<Rightarrow> Inr (us @ r)))"

definition encode_utf8 :: "str \<Rightarrow> error + byte list" where
  "encode_utf8 t = (case utf8_units t of Inl e \<Rightarrow> Inl e | Inr us \<Rightarrow> Inr (map of_nat us))"

definition is_cont :: "nat \<Rightarrow> bool" where
  "is_cont b = (0x80 \<le> b \<and> b < 0xC0)"

text \<open>
  The strict decoder refuses a stray continuation byte, the overlong lead bytes
  \<open>0xC0\<close> and \<open>0xC1\<close>, a truncated sequence, an overlong three- or four-byte form,
  a surrogate, and everything above \<open>0x10FFFF\<close>.
\<close>

fun utf8_decode_units :: "nat list \<Rightarrow> error + str" where
  "utf8_decode_units [] = Inr []"
| "utf8_decode_units (b0 # bs) =
     (if b0 < 0x80 then push b0 (utf8_decode_units bs)
      else if b0 < 0xC2 then Inl UnicodeDecodeError
      else if b0 < 0xE0 then
        (case bs of
           b1 # r \<Rightarrow>
             if is_cont b1
             then push ((b0 - 0xC0) * 64 + (b1 - 0x80)) (utf8_decode_units r)
             else Inl UnicodeDecodeError
         | _ \<Rightarrow> Inl UnicodeDecodeError)
      else if b0 < 0xF0 then
        (case bs of
           b1 # b2 # r \<Rightarrow>
             if is_cont b1 \<and> is_cont b2
             then (let c = (b0 - 0xE0) * 4096 + (b1 - 0x80) * 64 + (b2 - 0x80)
                   in if c < 0x800 \<or> (0xD800 \<le> c \<and> c \<le> 0xDFFF)
                      then Inl UnicodeDecodeError
                      else push c (utf8_decode_units r))
             else Inl UnicodeDecodeError
         | _ \<Rightarrow> Inl UnicodeDecodeError)
      else if b0 < 0xF5 then
        (case bs of
           b1 # b2 # b3 # r \<Rightarrow>
             if is_cont b1 \<and> is_cont b2 \<and> is_cont b3
             then (let c = (b0 - 0xF0) * 262144 + (b1 - 0x80) * 4096
                           + (b2 - 0x80) * 64 + (b3 - 0x80)
                   in if c < 0x10000 \<or> 0x10FFFF < c
                      then Inl UnicodeDecodeError
                      else push c (utf8_decode_units r))
             else Inl UnicodeDecodeError
         | _ \<Rightarrow> Inl UnicodeDecodeError)
      else Inl UnicodeDecodeError)"

definition decode_utf8 :: "byte list \<Rightarrow> error + str" where
  "decode_utf8 bs = utf8_decode_units (map unat bs)"

definition encode :: "encoding \<Rightarrow> str \<Rightarrow> error + byte list" where
  "encode enc t = (case enc of UTF8 \<Rightarrow> encode_utf8 t | ASCII \<Rightarrow> encode_ascii t)"

definition decode :: "encoding \<Rightarrow> byte list \<Rightarrow> error + str" where
  "decode enc bs = (case enc of UTF8 \<Rightarrow> decode_utf8 bs | ASCII \<Rightarrow> decode_ascii bs)"

subsection \<open>Text framing\<close>

text \<open>
  \<open>read_text(cls, data, encoding=None)\<close> returns the triple of the decoded text (or
  \<open>None\<close>), the index \<open>end\<close> and the flag \<open>done\<close>. The flag is set only on the
  branch where the separator was not found.
\<close>

definition read_text ::
  "byte list \<Rightarrow> encoding option \<Rightarrow> error + (str option \<times> int \<times> bool)" where
  "read_text data encoding =
     (let found = bytes_find data SEPARATOR;
          fin = (if found < 0 then True else False);
          stop = (if found < 0 then int (length data) else found)
      in if \<not> found < 0 \<and> found = 0 then Inr (None, 0, False)
         else
           (let enc = (case encoding of None \<Rightarrow> ENCODING | Some e \<Rightarrow> e)
            in case decode enc (take (nat stop) data) of
                 Inl e \<Rightarrow> Inl e
               | Inr t \<Rightarrow> Inr (Some t, stop, fin)))"

subsection \<open>Text safety classifiers\<close>

text \<open>
  \<open>unicodedata.category\<close> is a table of the Unicode character database; the
  classifiers take it as the parameter \<open>category\<close>. \<open>str.startswith\<close> is
  \<open>prefix\<close>.
\<close>

fun has_unicode_type :: "(nat \<Rightarrow> string) \<Rightarrow> str \<Rightarrow> string list \<Rightarrow> bool" where
  "has_unicode_type category [] types = False"
| "has_unicode_type category (c # cs) types =
     (if list_ex (\<lambda>t. prefix t (category c)) types then True
      else has_unicode_type category cs types)"

definition is_safe_unicode ::
  "(nat \<Rightarrow> string) \<Rightarrow> str \<Rightarrow> string list \<Rightarrow> error + bool" where
  "is_safe_unicode category t forbidden_types =
     (case encode ENCODING t of
        Inl e \<Rightarrow> Inl e
      | Inr btext \<Rightarrow>
          if list_ex (\<lambda>b. py_int_eq_bytes b SEPARATOR) btext then Inr False
          else Inr (\<not> has_unicode_type category t forbidden_types))"

text \<open>The body of the loop of \<open>is_safe_ascii\<close>: \<open>False\<close> is the early return.\<close>

fun ascii_bytes_ok :: "byte list \<Rightarrow> bool" where
  "ascii_bytes_ok [] = True"
| "ascii_bytes_ok (b # bs) =
     (if b < 32 \<or> b > 126 \<or> py_int_eq_bytes b SEPARATOR then False
      else ascii_bytes_ok bs)"

text \<open>
  \<open>is_safe_ascii\<close> catches \<open>UnicodeEncodeError\<close> and nothing else; any other
  exception of the body would leave the function.
\<close>

definition is_safe_ascii :: "str \<Rightarrow> error + bool" where
  "is_safe_ascii t =
     (case (case encode_ascii t of Inl e \<Rightarrow> Inl e | Inr btext \<Rightarrow> Inr (ascii_bytes_ok btext)) of
        Inl UnicodeEncodeError \<Rightarrow> Inr False
      | Inl e \<Rightarrow> Inl e
      | Inr ok \<Rightarrow> Inr ok)"

text \<open>
  An excerpt of the table of general categories, for the worked examples: the controls,
  the space, the digits, the two cases of the basic Latin letters and the lower-case
  letters \<open>U+00E0\<close> to \<open>U+00F6\<close>. A code point outside the excerpt is given the
  category of an unassigned one.
\<close>

definition category_excerpt :: "nat \<Rightarrow> string" where
  "category_excerpt c =
     (if c < 32 \<or> (127 \<le> c \<and> c < 160) then ''Cc''
      else if c = 32 then ''Zs''
      else if 48 \<le> c \<and> c \<le> 57 then ''Nd''
      else if 65 \<le> c \<and> c \<le> 90 then ''Lu''
      else if 97 \<le> c \<and> c \<le> 122 then ''Ll''
      else if 224 \<le> c \<and> c \<le> 246 then ''Ll''
      else ''Cn'')"

section \<open>Properties\<close>

subsection \<open>Range validators\<close>

lemma py_pow2_nonneg: "0 \<le> e \<Longrightarrow> py_pow2 e = of_int (2 ^ nat e)"
  by (simp add: py_pow2_def)

text \<open>
  C7. \<open>validate_range\<close> raises the out-of-range error exactly when \<open>optional\<close> is
  false, the value is present and the value lies below \<open>minval\<close> or above
  \<open>maxval\<close> (both bounds inclusive); in every other case it returns its argument
  unchanged, so it is a pass-through when \<open>optional\<close> is true or the value is absent.
\<close>

theorem validate_range_spec:
  "validate_range name val minval maxval optional =
     (if \<not> optional \<and> (\<exists>v. val = Some v \<and> (v < minval \<or> v > maxval))
      then Inl (OutOfRange name) else Inr val)"
  by (cases val) (simp_all add: validate_range_def)

theorem validate_range_spec_witness:
  "validate_range ''x'' (Some 5) 5 9 False = Inr (Some 5)
   \<and> validate_range ''x'' (Some 4) 5 9 False = Inl (OutOfRange ''x'')
   \<and> validate_range ''x'' (Some 10) 5 9 False = Inl (OutOfRange ''x'')
   \<and> validate_range ''x'' None 5 9 True = Inr None
   \<and> validate_range ''x'' (Some 4) 5 9 True = Inr (Some 4)"
  using validate_range_spec [of "''x''" "Some 5" 5 9 False]
        validate_range_spec [of "''x''" "Some 4" 5 9 False]
        validate_range_spec [of "''x''" "Some 10" 5 9 False]
        validate_range_spec [of "''x''" None 5 9 True]
        validate_range_spec [of "''x''" "Some 4" 5 9 True]
  by simp

text \<open>
  C6. \<open>validate_range_bytesize\<close> takes its bounds from the signed two's-complement
  range of \<open>size\<close> bytes whatever the \<open>signed\<close> flag is: the flag never changes the
  result, for a positive size the accepted values are those from \<open>- 2 ^ (8 * size - 1)\<close>
  to \<open>2 ^ (8 * size - 1) - 1\<close>, with size 1 the value 127 is returned, 128 is out of
  range, and 0 with \<open>allow_zero = False\<close> is refused as zero.
\<close>

theorem validate_range_bytesize_signed_bounds:
  "validate_range_bytesize name val sz optional allow_zero True
     = validate_range_bytesize name val sz optional allow_zero False
   \<and> (1 \<le> sz \<longrightarrow>
        validate_range_bytesize name (Some v) sz False True sgnd =
          (if v < - (2 ^ nat (8 * sz - 1)) \<or> v > 2 ^ nat (8 * sz - 1) - 1
           then Inl (OutOfRange name) else Inr (Some v)))
   \<and> validate_range_bytesize ''x'' (Some 127) 1 False True sgnd = Inr (Some 127)
   \<and> validate_range_bytesize ''x'' (Some 128) 1 False True sgnd = Inl (OutOfRange ''x'')
   \<and> validate_range_bytesize ''x'' (Some 0) 1 False False sgnd = Inl (ZeroNotAllowed ''x'')"
proof (intro conjI impI)
  show "validate_range_bytesize name val sz optional allow_zero True
     = validate_range_bytesize name val sz optional allow_zero False"
    by (simp add: validate_range_bytesize_def)
next
  assume s: "1 \<le> sz"
  then have p: "py_pow2 (8 * sz - 1) = of_int (2 ^ nat (8 * sz - 1))"
    by (intro py_pow2_nonneg) simp
  have a: "(of_int v < - py_pow2 (8 * sz - 1)) = (v < - (2 ^ nat (8 * sz - 1)))"
  proof -
    have "- py_pow2 (8 * sz - 1) = of_int (- (2 ^ nat (8 * sz - 1)))"
      unfolding p by (simp only: of_int_minus)
    then show ?thesis by (simp only: of_int_less_iff)
  qed
  have b: "(py_pow2 (8 * sz - 1) - 1 < of_int v) = (2 ^ nat (8 * sz - 1) - 1 < v)"
  proof -
    have "py_pow2 (8 * sz - 1) - 1 = of_int (2 ^ nat (8 * sz - 1) - 1)"
      unfolding p by (simp only: of_int_diff of_int_1)
    then show ?thesis by (simp only: of_int_less_iff)
  qed
  show "validate_range_bytesize name (Some v) sz False True sgnd =
          (if v < - (2 ^ nat (8 * sz - 1)) \<or> v > 2 ^ nat (8 * sz - 1) - 1
           then Inl (OutOfRange name) else Inr (Some v))"
    by (simp add: validate_range_bytesize_def Let_def a b)
next
  show "validate_range_bytesize ''x'' (Some 127) 1 False True sgnd = Inr (Some 127)"
    by (simp add: validate_range_bytesize_def py_pow2_def)
next
  show "validate_range_bytesize ''x'' (Some 128) 1 False True sgnd = Inl (OutOfRange ''x'')"
    by (simp add: validate_range_bytesize_def py_pow2_def)
next
  show "validate_range_bytesize ''x'' (Some 0) 1 False False sgnd = Inl (ZeroNotAllowed ''x'')"
    by (simp add: validate_range_bytesize_def)
qed

theorem validate_range_bytesize_signed_bounds_witness:
  "(1::int) \<le> 2
   \<and> validate_range_bytesize ''n'' (Some 32767) 2 False True False = Inr (Some 32767)
   \<and> validate_range_bytesize ''n'' (Some 32768) 2 False True False = Inl (OutOfRange ''n'')
   \<and> validate_range_bytesize ''n'' (Some (- 32768)) 2 False True False = Inr (Some (- 32768))"
  using validate_range_bytesize_signed_bounds [of "''n''" None 2 False True 32767 False]
        validate_range_bytesize_signed_bounds [of "''n''" None 2 False True 32768 False]
        validate_range_bytesize_signed_bounds [of "''n''" None 2 False True "- 32768" False]
  by simp

subsection \<open>The codecs: the decoder inverts the encoder\<close>

lemma push_simps [simp]:
  "push x (Inl e) = Inl e" "push x (Inr xs) = Inr (x # xs)"
  by (simp_all add: push_def)

lemma utf8_char_bound: "utf8_char c = Inr us \<Longrightarrow> u \<in> set us \<Longrightarrow> u < 0xF5"
  by (auto simp: utf8_char_def split: if_splits)

lemma utf8_units_bound: "utf8_units t = Inr us \<Longrightarrow> u \<in> set us \<Longrightarrow> u < 0xF5"
proof (induction t arbitrary: us)
  case Nil
  then show ?case by simp
next
  case (Cons c cs)
  from Cons.prems(1) obtain a b where a: "utf8_char c = Inr a" and b: "utf8_units cs = Inr b"
    and us: "us = a @ b"
    by (auto split: sum.splits)
  from Cons.prems(2) us have "u \<in> set a \<or> u \<in> set b" by simp
  then show ?case
    using utf8_char_bound [OF a] Cons.IH [OF b] by blast
qed

lemma recompose2: "c div 64 * 64 + c mod 64 = (c::nat)"
  by simp

lemma recompose3: "c div 4096 * 4096 + c div 64 mod 64 * 64 + c mod 64 = (c::nat)"
proof -
  have "c div 64 = (c div 64 div 64) * 64 + c div 64 mod 64" by simp
  moreover have "c div 64 div 64 = c div 4096" by (simp add: div_mult2_eq [symmetric])
  moreover have "c = c div 64 * 64 + c mod 64" by simp
  ultimately show ?thesis by linarith
qed

lemma recompose4:
  "c div 262144 * 262144 + c div 4096 mod 64 * 4096 + c div 64 mod 64 * 64 + c mod 64 = (c::nat)"
proof -
  have a: "c div 4096 = (c div 4096 div 64) * 64 + c div 4096 mod 64" by simp
  have b: "c div 4096 div 64 = c div 262144" by (simp add: div_mult2_eq [symmetric])
  have "c = c div 4096 * 4096 + c div 64 mod 64 * 64 + c mod 64"
    using recompose3 [of c] by simp
  with a b show ?thesis by linarith
qed

lemma lead2: "0x80 \<le> c \<Longrightarrow> c < 0x800 \<Longrightarrow> 2 \<le> c div 64 \<and> c div 64 < (32::nat)"
  by (simp add: less_mult_imp_div_less le_div_geq div_le_mono Suc_le_eq div_greater_zero_iff)

lemma lead3: "c < 0x10000 \<Longrightarrow> c div 4096 < (16::nat)"
  by (simp add: less_mult_imp_div_less)

lemma lead4: "c < 0x110000 \<Longrightarrow> c div 262144 < (5::nat)"
  by (simp add: less_mult_imp_div_less)

lemma decode_one_unit: "c < 0x80 \<Longrightarrow> utf8_decode_units (c # r) = push c (utf8_decode_units r)"
  by simp

lemma decode_two_units:
  assumes "0x80 \<le> c" "c < 0x800"
  shows "utf8_decode_units ((0xC0 + c div 64) # (0x80 + c mod 64) # r)
           = push c (utf8_decode_units r)"
proof -
  have lead: "\<not> 0xC0 + c div 64 < 0x80" "\<not> 0xC0 + c div 64 < 0xC2" "0xC0 + c div 64 < 0xE0"
    using lead2 [OF assms] by simp_all
  have cont: "is_cont (0x80 + c mod 64)"
    by (simp add: is_cont_def)
  have val: "(0xC0 + c div 64 - 0xC0) * 64 + (0x80 + c mod 64 - 0x80) = c"
    by simp
  show ?thesis
    by (simp only: utf8_decode_units.simps lead cont val if_True if_False list.case)
qed

lemma decode_three_units:
  assumes "0x800 \<le> c" "c < 0x10000" "\<not> (0xD800 \<le> c \<and> c \<le> 0xDFFF)"
  shows "utf8_decode_units
           ((0xE0 + c div 4096) # (0x80 + c div 64 mod 64) # (0x80 + c mod 64) # r)
           = push c (utf8_decode_units r)"
proof -
  have lead: "\<not> 0xE0 + c div 4096 < 0x80" "\<not> 0xE0 + c div 4096 < 0xC2"
    "\<not> 0xE0 + c div 4096 < 0xE0" "0xE0 + c div 4096 < 0xF0"
    using lead3 [OF assms(2)] by simp_all
  have cont: "is_cont (0x80 + c div 64 mod 64)" "is_cont (0x80 + c mod 64)"
    by (simp_all add: is_cont_def)
  have val: "(0xE0 + c div 4096 - 0xE0) * 4096 + (0x80 + c div 64 mod 64 - 0x80) * 64
               + (0x80 + c mod 64 - 0x80) = c"
    using recompose3 [of c] by simp
  have ok: "\<not> (c < 0x800 \<or> (0xD800 \<le> c \<and> c \<le> 0xDFFF))"
    using assms by simp
  show ?thesis
    by (simp only: utf8_decode_units.simps lead cont val ok Let_def if_True if_False
        list.case simp_thms)
qed

lemma decode_four_units:
  assumes "0x10000 \<le> c" "c < 0x110000"
  shows "utf8_decode_units
           ((0xF0 + c div 262144) # (0x80 + c div 4096 mod 64) # (0x80 + c div 64 mod 64)
              # (0x80 + c mod 64) # r)
           = push c (utf8_decode_units r)"
proof -
  have lead: "\<not> 0xF0 + c div 262144 < 0x80" "\<not> 0xF0 + c div 262144 < 0xC2"
    "\<not> 0xF0 + c div 262144 < 0xE0" "\<not> 0xF0 + c div 262144 < 0xF0"
    "0xF0 + c div 262144 < 0xF5"
    using lead4 [OF assms(2)] by simp_all
  have cont: "is_cont (0x80 + c div 4096 mod 64)" "is_cont (0x80 + c div 64 mod 64)"
    "is_cont (0x80 + c mod 64)"
    by (simp_all add: is_cont_def)
  have val: "(0xF0 + c div 262144 - 0xF0) * 262144 + (0x80 + c div 4096 mod 64 - 0x80) * 4096
               + (0x80 + c div 64 mod 64 - 0x80) * 64 + (0x80 + c mod 64 - 0x80) = c"
    using recompose4 [of c] by simp
  have ok: "\<not> (c < 0x10000 \<or> 0x10FFFF < c)"
    using assms by simp
  show ?thesis
    by (simp only: utf8_decode_units.simps lead cont val ok Let_def if_True if_False
        list.case simp_thms)
qed

lemma utf8_decode_char:
  assumes "utf8_char c = Inr us"
  shows "utf8_decode_units (us @ r) = push c (utf8_decode_units r)"
proof -
  consider (one) "c < 0x80"
    | (two) "0x80 \<le> c" "c < 0x800"
    | (three) "0x800 \<le> c" "c < 0x10000" "\<not> (0xD800 \<le> c \<and> c \<le> 0xDFFF)"
    | (four) "0x10000 \<le> c" "c < 0x110000"
    | (bad) "(0xD800 \<le> c \<and> c \<le> 0xDFFF) \<or> 0x110000 \<le> c"
    by linarith
  then show ?thesis
  proof cases
    case one
    then have "us = [c]" using assms by (simp add: utf8_char_def)
    then show ?thesis using one by simp
  next
    case two
    then have "us = [0xC0 + c div 64, 0x80 + c mod 64]"
      using assms by (simp add: utf8_char_def)
    then show ?thesis using decode_two_units [OF two] by simp
  next
    case three
    then have "us = [0xE0 + c div 4096, 0x80 + c div 64 mod 64, 0x80 + c mod 64]"
      using assms by (auto simp: utf8_char_def split: if_splits)
    then show ?thesis using decode_three_units [OF three] by simp
  next
    case four
    then have "us = [0xF0 + c div 262144, 0x80 + c div 4096 mod 64,
                     0x80 + c div 64 mod 64, 0x80 + c mod 64]"
      using assms by (auto simp: utf8_char_def split: if_splits)
    then show ?thesis using decode_four_units [OF four] by simp
  next
    case bad
    then have "utf8_char c = Inl UnicodeEncodeError"
      by (auto simp: utf8_char_def)
    then show ?thesis using assms by simp
  qed
qed

lemma utf8_decode_units_encode: "utf8_units t = Inr us \<Longrightarrow> utf8_decode_units us = Inr t"
proof (induction t arbitrary: us)
  case Nil
  then show ?case by simp
next
  case (Cons c cs)
  from Cons.prems obtain a b where a: "utf8_char c = Inr a" and b: "utf8_units cs = Inr b"
    and us: "us = a @ b"
    by (auto split: sum.splits)
  show ?case
    unfolding us utf8_decode_char [OF a] Cons.IH [OF b] by simp
qed

lemma unat_of_nat_byte: "n < 256 \<Longrightarrow> unat (of_nat n :: byte) = n"
  by (simp add: unat_of_nat)

lemma map_unat_of_nat: "\<forall>u\<in>set us. u < 256 \<Longrightarrow> map unat (map of_nat us :: byte list) = us"
  by (induction us) (simp_all add: unat_of_nat_byte)

lemma bytes_find_from_absent: "s \<notin> set xs \<Longrightarrow> bytes_find_from xs [s] i = - 1"
  by (induction xs arbitrary: i) auto

lemma bytes_find_from_first:
  "s \<notin> set xs \<Longrightarrow> bytes_find_from (xs @ s # ys) [s] i = int (i + length xs)"
  by (induction xs arbitrary: i) auto


lemma utf8_char_nonempty: "utf8_char c = Inr us \<Longrightarrow> us \<noteq> []"
  by (auto simp: utf8_char_def split: if_splits)

lemma utf8_units_nonempty: "utf8_units t = Inr us \<Longrightarrow> t \<noteq> [] \<Longrightarrow> us \<noteq> []"
  by (cases t) (auto split: sum.splits dest: utf8_char_nonempty)

lemma encode_utf8_Inr:
  assumes "encode_utf8 t = Inr bs"
  shows "decode_utf8 bs = Inr t" and "0xFF \<notin> set bs" and "t \<noteq> [] \<Longrightarrow> bs \<noteq> []"
proof -
  from assms obtain us where us: "utf8_units t = Inr us" and bs: "bs = map of_nat us"
    by (auto simp: encode_utf8_def split: sum.splits)
  have small: "\<forall>u\<in>set us. u < 256"
    using utf8_units_bound [OF us] by fastforce
  have rt: "map unat bs = us"
    using small unfolding bs by (rule map_unat_of_nat)
  show "decode_utf8 bs = Inr t"
    unfolding decode_utf8_def rt by (rule utf8_decode_units_encode [OF us])
  show "0xFF \<notin> set bs"
  proof
    assume "0xFF \<in> set bs"
    then have "unat (0xFF :: byte) \<in> set (map unat bs)" by (simp only: set_map) (rule imageI)
    then have "255 \<in> set us" unfolding rt by simp
    then show False using utf8_units_bound [OF us] by fastforce
  qed
  show "bs \<noteq> []" if "t \<noteq> []"
    using utf8_units_nonempty [OF us that] bs by simp
qed

lemma encode_ascii_good: "\<forall>c\<in>set t. c < 128 \<Longrightarrow> encode_ascii t = Inr (map of_nat t)"
  by (induction t) simp_all

lemma encode_ascii_bad: "\<exists>c\<in>set t. \<not> c < 128 \<Longrightarrow> encode_ascii t = Inl UnicodeEncodeError"
  by (induction t) auto

lemma ascii_byte_range:
  assumes "c < 128"
  shows "((of_nat c :: byte) < 32 \<or> (of_nat c :: byte) > 126) = (\<not> (32 \<le> c \<and> c \<le> 126))"
proof -
  have u: "unat (of_nat c :: byte) = c"
    using assms by (simp add: unat_of_nat_byte)
  show ?thesis
    by (simp add: word_less_nat_alt u) linarith
qed

lemma ascii_bytes_ok_of_nat:
  "\<forall>c\<in>set t. c < 128 \<Longrightarrow> ascii_bytes_ok (map of_nat t) = (\<forall>c\<in>set t. 32 \<le> c \<and> c \<le> 126)"
  by (induction t) (auto simp: ascii_byte_range py_int_eq_bytes_def)

lemma ascii_bytes_ok_iff: "ascii_bytes_ok bs = (\<forall>b\<in>set bs. 32 \<le> b \<and> b \<le> 126)"
  by (induction bs) (auto simp: py_int_eq_bytes_def)

lemma is_safe_ascii_eq: "is_safe_ascii t = Inr (\<forall>c\<in>set t. 32 \<le> c \<and> c \<le> 126)"
proof (cases "\<forall>c\<in>set t. c < 128")
  case True
  show ?thesis
    by (simp add: is_safe_ascii_def encode_ascii_good [OF True] ascii_bytes_ok_of_nat [OF True])
next
  case False
  then have bad: "\<exists>c\<in>set t. \<not> c < 128" by simp
  then have "\<not> (\<forall>c\<in>set t. 32 \<le> c \<and> c \<le> 126)" by fastforce
  then show ?thesis
    by (simp add: is_safe_ascii_def encode_ascii_bad [OF bad])
qed

lemma bytes_find_separator:
  "0xFF \<notin> set bs \<Longrightarrow> bytes_find (bs @ SEPARATOR @ rest) SEPARATOR = int (length bs)"
  using bytes_find_from_first [of "0xFF" bs rest 0] by (simp add: bytes_find_def SEPARATOR_def)

lemma bytes_find_no_separator:
  "0xFF \<notin> set bs \<Longrightarrow> bytes_find bs SEPARATOR = - 1"
  using bytes_find_from_absent [of "0xFF" bs 0] by (simp add: bytes_find_def SEPARATOR_def)

subsection \<open>Text safety classifiers\<close>

text \<open>
  C9. \<open>is_safe_ascii\<close> always returns a boolean and never raises. The boolean is true
  exactly when the text encodes in strict 7-bit ASCII and every byte of the encoding
  lies between 32 and 126 inclusive and differs from the separator byte; equivalently,
  when every code point lies between 32 and 126. A text with a character that ASCII
  cannot encode makes the encoder fail, and the function returns false.
\<close>

theorem is_safe_ascii_spec:
  "is_safe_ascii t = Inr (\<forall>c\<in>set t. 32 \<le> c \<and> c \<le> 126)
   \<and> (is_safe_ascii t = Inr True) =
       (\<exists>bs. encode_ascii t = Inr bs \<and> (\<forall>b\<in>set bs. 32 \<le> b \<and> b \<le> 126 \<and> [b] \<noteq> SEPARATOR))
   \<and> ((\<exists>c\<in>set t. 128 \<le> c) \<longrightarrow>
        encode_ascii t = Inl UnicodeEncodeError \<and> is_safe_ascii t = Inr False)"
proof (intro conjI impI)
  show "is_safe_ascii t = Inr (\<forall>c\<in>set t. 32 \<le> c \<and> c \<le> 126)"
    by (rule is_safe_ascii_eq)
next
  show "(is_safe_ascii t = Inr True) =
       (\<exists>bs. encode_ascii t = Inr bs \<and> (\<forall>b\<in>set bs. 32 \<le> b \<and> b \<le> 126 \<and> [b] \<noteq> SEPARATOR))"
  proof (cases "\<forall>c\<in>set t. c < 128")
    case True
    have sep: "(\<forall>b\<in>set bs. 32 \<le> b \<and> b \<le> 126 \<and> [b] \<noteq> SEPARATOR) = ascii_bytes_ok bs"
      for bs :: "byte list"
      by (auto simp: ascii_bytes_ok_iff SEPARATOR_def)
    show ?thesis
      by (simp only: sep is_safe_ascii_def encode_ascii_good [OF True]) simp
  next
    case False
    then have bad: "\<exists>c\<in>set t. \<not> c < 128" by simp
    show ?thesis
      by (simp add: is_safe_ascii_def encode_ascii_bad [OF bad])
  qed
next
  assume "\<exists>c\<in>set t. 128 \<le> c"
  then have bad: "\<exists>c\<in>set t. \<not> c < 128" by (simp add: not_less)
  show "encode_ascii t = Inl UnicodeEncodeError"
    by (rule encode_ascii_bad [OF bad])
  show "is_safe_ascii t = Inr False"
    by (simp add: is_safe_ascii_def encode_ascii_bad [OF bad])
qed

theorem is_safe_ascii_spec_witness:
  "is_safe_ascii [72, 105] = Inr True \<and> is_safe_ascii [72, 10] = Inr False
   \<and> (\<exists>c\<in>set [72, 233 :: nat]. 128 \<le> c) \<and> is_safe_ascii [72, 233] = Inr False
   \<and> encode_ascii [72, 105] = Inr [72, 105]"
  using is_safe_ascii_spec [of "[72, 105]"] is_safe_ascii_spec [of "[72, 10]"]
        is_safe_ascii_spec [of "[72, 233]"]
  by simp

text \<open>
  C3. For a text that \<open>is_safe_ascii\<close> accepts, the ASCII encoding exists and does
  not contain the byte \<open>0xFF\<close>; for a text that \<open>is_safe_unicode\<close> accepts, with
  any category table and any set of forbidden categories, the UTF-8 encoding exists and
  does not contain the byte \<open>0xFF\<close>.
\<close>

theorem separator_never_encoded:
  "(is_safe_ascii t = Inr True \<longrightarrow> (\<exists>bs. encode ASCII t = Inr bs \<and> 0xFF \<notin> set bs))
   \<and> (is_safe_unicode category t forbidden_types = Inr True \<longrightarrow>
        (\<exists>bs. encode UTF8 t = Inr bs \<and> 0xFF \<notin> set bs))"
proof (intro conjI impI)
  assume "is_safe_ascii t = Inr True"
  then have r: "\<forall>c\<in>set t. 32 \<le> c \<and> c \<le> 126"
    by (simp add: is_safe_ascii_eq)
  then have a: "\<forall>c\<in>set t. c < 128" by fastforce
  have "(0xFF :: byte) \<notin> set (map of_nat t)"
  proof
    assume "(0xFF :: byte) \<in> set (map of_nat t)"
    then obtain c where c: "c \<in> set t" and e: "(of_nat c :: byte) = 0xFF" by auto
    from c a have "c < 128" by blast
    then have "unat (of_nat c :: byte) = c" by (simp add: unat_of_nat_byte)
    with e have "c = 255" by simp
    with \<open>c < 128\<close> show False by simp
  qed
  then show "\<exists>bs. encode ASCII t = Inr bs \<and> 0xFF \<notin> set bs"
    by (simp add: encode_def encode_ascii_good [OF a])
next
  assume "is_safe_unicode category t forbidden_types = Inr True"
  then obtain bs where "encode_utf8 t = Inr bs"
    by (auto simp: is_safe_unicode_def encode_def ENCODING_def split: sum.splits)
  then show "\<exists>bs. encode UTF8 t = Inr bs \<and> 0xFF \<notin> set bs"
    using encode_utf8_Inr(2) by (auto simp: encode_def)
qed

theorem separator_never_encoded_witness:
  "is_safe_ascii [72, 105] = Inr True \<and> encode ASCII [72, 105] = Inr [72, 105]
   \<and> is_safe_unicode category_excerpt [72, 233] [''C''] = Inr True
   \<and> encode UTF8 [72, 233] = Inr [72, 195, 169]
   \<and> (0xFF :: byte) \<notin> set [72, 195, 169]"
proof -
  have a: "is_safe_ascii [72, 105] = Inr True"
    by (simp add: is_safe_ascii_def py_int_eq_bytes_def)
  have u: "is_safe_unicode category_excerpt [72, 233] [''C''] = Inr True"
    by (simp add: is_safe_unicode_def encode_def ENCODING_def encode_utf8_def utf8_char_def
        py_int_eq_bytes_def category_excerpt_def)
  have e: "encode UTF8 [72, 233] = Inr [72, 195, 169]"
    by (simp add: encode_def encode_utf8_def utf8_char_def)
  have e': "encode ASCII [72, 105] = Inr [72, 105]"
    by (simp add: encode_def)
  show ?thesis
    using a u e e' separator_never_encoded [of "[72, 105]" category_excerpt "[''C'']"]
      separator_never_encoded [of "[72, 233]" category_excerpt "[''C'']"]
    by simp
qed

subsection \<open>Text framing\<close>

text \<open>
  C2, as the code has it. On the empty buffer the separator is not found, so the whole
  (empty) buffer is decoded: \<open>read_text\<close> returns the empty text, not \<open>None\<close>,
  with zero bytes consumed and the flag true, for every encoding.
\<close>

theorem read_text_empty: "read_text [] encoding = Inr (Some [], 0, True)"
  by (cases encoding)
     (simp_all add: read_text_def bytes_find_def SEPARATOR_def decode_def decode_utf8_def
        ENCODING_def split: encoding.splits)

text \<open>C2 as stated fails: the first component is not \<open>None\<close>.\<close>

theorem read_text_empty_counterexample: "read_text [] None \<noteq> Inr (None, 0, True)"
  by (simp add: read_text_def bytes_find_def SEPARATOR_def decode_def decode_utf8_def
        ENCODING_def)

text \<open>
  C1, as the code has it. For a text that \<open>is_safe_unicode\<close> accepts, the encoding
  exists, and \<open>read_text\<close> on the encoding followed by the separator returns the text
  and the length of the encoding (the separator is not consumed) with the flag
  \<open>False\<close>: the flag is true only when no separator was found. For the empty text
  the separator stands at offset zero and the result is \<open>(None, 0, False)\<close>.
\<close>

theorem read_text_after_encode:
  assumes "is_safe_unicode category t forbidden_types = Inr True"
  shows "\<exists>bs. encode ENCODING t = Inr bs
           \<and> read_text (bs @ SEPARATOR) None =
               (if t = [] then Inr (None, 0, False)
                else Inr (Some t, int (length bs), False))"
proof -
  from assms obtain bs where bs: "encode_utf8 t = Inr bs"
    by (auto simp: is_safe_unicode_def encode_def ENCODING_def split: sum.splits)
  note facts = encode_utf8_Inr [OF bs]
  have found: "bytes_find (bs @ SEPARATOR) SEPARATOR = int (length bs)"
    using bytes_find_separator [OF facts(2), of "[]"] by simp
  have "read_text (bs @ SEPARATOR) None =
          (if t = [] then Inr (None, 0, False) else Inr (Some t, int (length bs), False))"
  proof (cases "t = []")
    case True
    then have "bs = []" using bs by (simp add: encode_utf8_def)
    with True found show ?thesis by (simp add: read_text_def Let_def)
  next
    case False
    then have "bs \<noteq> []" by (rule facts(3))
    with False found facts(1) show ?thesis
      by (simp add: read_text_def Let_def decode_def ENCODING_def)
  qed
  with bs show ?thesis by (simp add: encode_def ENCODING_def)
qed

theorem read_text_after_encode_witness:
  "is_safe_unicode category_excerpt [72, 105] [''C''] = Inr True
   \<and> encode ENCODING [72, 105] = Inr [72, 105]
   \<and> read_text ([72, 105] @ SEPARATOR) None = Inr (Some [72, 105], 2, False)"
proof -
  have h: "is_safe_unicode category_excerpt [72, 105] [''C''] = Inr True"
    by (simp add: is_safe_unicode_def encode_def ENCODING_def encode_utf8_def utf8_char_def
        py_int_eq_bytes_def category_excerpt_def)
  have e: "encode ENCODING [72, 105] = Inr [72, 105]"
    by (simp add: encode_def ENCODING_def encode_utf8_def utf8_char_def)
  show ?thesis
    using h e read_text_after_encode [OF h] by simp
qed

text \<open>
  C1 as stated fails at the one-letter text \<open>a\<close>: the flag returned with a
  separator found at offset one is \<open>False\<close>.
\<close>

theorem read_text_after_encode_counterexample:
  "is_safe_unicode category_excerpt [97] [''C''] = Inr True
   \<and> encode ENCODING [97] = Inr [97]
   \<and> read_text ([97] @ SEPARATOR) None = Inr (Some [97], 1, False)
   \<and> read_text ([97] @ SEPARATOR) None \<noteq> Inr (Some [97], 1, True)"
  by (simp add: is_safe_unicode_def encode_def ENCODING_def encode_utf8_def utf8_char_def
      py_int_eq_bytes_def category_excerpt_def read_text_def bytes_find_def SEPARATOR_def
      decode_def decode_utf8_def)

end
